theory Spec2Isabelle
  imports Complex_Main "HOL-Library.Sublist"
begin

section \<open>Strings of the program\<close>

text \<open>
  A Python \<open>str\<close> is a sequence of Unicode code points: \<open>len\<close> counts code points and
  a slice \<open>s[i:j]\<close> cuts at code points. A code point is modelled by its number.
  ASCII literals of the source are written through \<open>ascii\<close>; the Korean literals are
  given by their code points.
\<close>

type_synonym pystr = "nat list"

definition ascii :: "string \<Rightarrow> pystr" where
  "ascii s = map of_char s"

text \<open>\<open>s.endswith(suf)\<close>.\<close>

definition endswith :: "pystr \<Rightarrow> pystr \<Rightarrow> bool" where
  "endswith s suf = (length suf \<le> length s \<and> drop (length s - length suf) s = suf)"

text \<open>\<open>str(n)\<close> of a non-negative integer, as the f-string field \<open>{i}\<close> renders it: decimal
  digits, no leading zero.\<close>

fun str_of_nat :: "nat \<Rightarrow> pystr" where
  "str_of_nat n = (if n < 10 then [48 + n] else str_of_nat (n div 10) @ [48 + n mod 10])"

declare str_of_nat.simps [simp del]

text \<open>The slice \<open>s[i:j]\<close> for \<open>0 \<le> i \<le> j\<close>: Python clips it at the end of the string.\<close>

definition slice :: "pystr \<Rightarrow> nat \<Rightarrow> nat \<Rightarrow> pystr" where
  "slice s i j = take (j - i) (drop i s)"

text \<open>\<open>sep.join(xs)\<close>.\<close>

fun join :: "pystr \<Rightarrow> pystr list \<Rightarrow> pystr" where
  "join sep [] = []"
| "join sep [x] = x"
| "join sep (x # y # ys) = x @ sep @ join sep (y # ys)"

text \<open>\<open>range(start, stop, step)\<close> for a positive step, as the \<open>for\<close> loop of line 55 walks it.
  (Python raises \<open>ValueError\<close> on step 0; the program's step is the constant 650.)\<close>

function py_range :: "nat \<Rightarrow> nat \<Rightarrow> nat \<Rightarrow> nat list" where
  "py_range i stop step =
     (if 0 < step \<and> i < stop then i # py_range (i + step) stop step else [])"
  by pat_completeness auto
termination
  by (relation "measure (\<lambda>(i, stop, step). stop - i)") auto

declare py_range.simps [simp del]

text \<open>An exception caught by \<open>except Exception as e\<close>, with the text \<open>{e}\<close> formats.\<close>

datatype exc = Exc (message: pystr)

section \<open>The index collection\<close>

record metadata =
  source :: pystr

record entry =
  document :: pystr
  meta :: metadata

type_synonym collection = "pystr \<rightharpoonup> entry"

text \<open>\<open>collection.upsert(documents=[doc], metadatas=[m], ids=[id])\<close>: insert or overwrite by id.
  The embedding the store derives from the document is internal to the store. The store
  is taken to accept every upsert: an exception of the store is caught nowhere in
  \<open>load_files_to_db\<close> and would end the pass.\<close>

definition upsert :: "collection \<Rightarrow> pystr \<Rightarrow> pystr \<Rightarrow> metadata \<Rightarrow> collection" where
  "upsert c cid doc m = c(cid \<mapsto> \<lparr>document = doc, meta = m\<rparr>)"

section \<open>Chunking (lines 31-32 and 53-62 of load\_files\_to\_db)\<close>

definition chunk_size :: nat where
  "chunk_size = 800"

definition overlap :: nat where
  "overlap = 150"

text \<open>The offsets the loop of line 55 visits.\<close>

definition chunk_offsets :: "pystr \<Rightarrow> nat list" where
  "chunk_offsets content = py_range 0 (length content) (chunk_size - overlap)"

text \<open>Line 56: \<open>chunk = content[i : i + chunk_size]\<close>.\<close>

definition chunk_at :: "pystr \<Rightarrow> nat \<Rightarrow> pystr" where
  "chunk_at content i = slice content i (i + chunk_size)"

text \<open>Line 57: \<open>chunk_id = f"{filename}_part_{i}"\<close>.\<close>

definition chunk_id :: "pystr \<Rightarrow> nat \<Rightarrow> pystr" where
  "chunk_id filename i = filename @ ascii ''_part_'' @ str_of_nat i"

text \<open>The chunks of one document, in loop order: offset and text.\<close>

definition chunks :: "pystr \<Rightarrow> (nat \<times> pystr) list" where
  "chunks content = map (\<lambda>i. (i, chunk_at content i)) (chunk_offsets content)"

text \<open>Lines 53-62: the guarded loop that upserts every chunk of one file's content.\<close>

definition index_content :: "pystr \<Rightarrow> pystr \<Rightarrow> collection \<Rightarrow> collection" where
  "index_content filename content c =
     (if content \<noteq> [] then
        fold (\<lambda>i c'. upsert c' (chunk_id filename i) (chunk_at content i) \<lparr>source = filename\<rparr>)
          (chunk_offsets content) c
      else c)"

section \<open>Synchronization (load\_files\_to\_db, lines 27-63)\<close>

text \<open>
  The directory is the program's environment: the names \<open>os.listdir\<close> returns, what
  reading a path as UTF-8 text gives (the text, or the exception raised), and what
  \<open>PdfReader\<close> gives for a path (the exception it raises, or the pages, each of which
  yields its text or raises when \<open>extract_text\<close> is called). A directory the program
  had to create lists no names.
\<close>

record filesystem =
  listdir :: "pystr list"
  read_text :: "pystr \<Rightarrow> exc + pystr"
  pdf_reader :: "pystr \<Rightarrow> exc + (exc + pystr) list"

text \<open>The program's state: the collection and the errors shown in the sidebar.\<close>

record app_state =
  collection_of :: collection
  sidebar_errors :: "pystr list"

definition txt_failed :: pystr where
  "txt_failed =
     [32, 51069, 44592, 32, 49892, 54056, 58, 32]"

definition pdf_failed :: pystr where
  "pdf_failed =
     [32, 80, 68, 70, 32, 51069, 44592, 32, 49892, 54056, 58, 32]"

definition sync_done :: pystr where
  "sync_done =
     [10024, 32, 47784, 46304, 32, 47196, 52972, 32, 47928, 49436, 40, 80, 68, 70, 47,
      84, 88, 84, 41, 32, 46041, 44592, 54868, 32, 50756, 47308, 33]"

text \<open>Lines 47-49: the page loop inside the \<open>try\<close>. It returns the content gathered so far
  and the exception that ended it, if one did: \<open>content\<close> is assigned page by page, so what
  was gathered before an exception stays.\<close>

fun extract_pages :: "pystr \<Rightarrow> (exc + pystr) list \<Rightarrow> pystr \<times> exc option" where
  "extract_pages content [] = (content, None)"
| "extract_pages content (Inl e # pages) = (content, Some e)"
| "extract_pages content (Inr text # pages) =
     extract_pages (if text \<noteq> [] then content @ text @ [10] else content) pages"

text \<open>Lines 36-51: the content read from one file and the errors reported for it.\<close>

definition read_content :: "filesystem \<Rightarrow> pystr \<Rightarrow> pystr \<times> pystr list" where
  "read_content fs filename =
     (if endswith filename (ascii ''.txt'') then
        (case read_text fs filename of
           Inr text \<Rightarrow> (text, [])
         | Inl e \<Rightarrow> ([], [filename @ txt_failed @ message e]))
      else if endswith filename (ascii ''.pdf'') then
        (case pdf_reader fs filename of
           Inl e \<Rightarrow> ([], [filename @ pdf_failed @ message e])
         | Inr pages \<Rightarrow>
            (case extract_pages [] pages of
               (content, None) \<Rightarrow> (content, [])
             | (content, Some e) \<Rightarrow> (content, [filename @ pdf_failed @ message e])))
      else ([], []))"

text \<open>One iteration of the loop of line 34.\<close>

definition sync_file :: "filesystem \<Rightarrow> pystr \<Rightarrow> app_state \<Rightarrow> app_state" where
  "sync_file fs filename s =
     (case read_content fs filename of
        (content, errs) \<Rightarrow>
          \<lparr>collection_of = index_content filename content (collection_of s),
           sidebar_errors = sidebar_errors s @ errs\<rparr>)"

definition load_files_to_db :: "filesystem \<Rightarrow> app_state \<Rightarrow> pystr \<times> app_state" where
  "load_files_to_db fs s = (sync_done, fold (sync_file fs) (listdir fs) s)"

section \<open>The chat handler (lines 81-137)\<close>

text \<open>Lines 97-99: one labelled block per (document, metadata) pair of the result.\<close>

definition formatted_contexts :: "pystr list \<Rightarrow> metadata list \<Rightarrow> pystr list" where
  "formatted_contexts contexts metadatas =
     map (\<lambda>(doc, m). ascii ''['' @ source m @ ascii '']: '' @ doc) (zip contexts metadatas)"

text \<open>Line 101.\<close>

definition context_text :: "pystr list \<Rightarrow> metadata list \<Rightarrow> pystr" where
  "context_text contexts metadatas = join [10, 10] (formatted_contexts contexts metadatas)"

text \<open>
  Line 102: \<open>list(set([m['source'] for m in metadatas]))\<close>. The order in which Python
  iterates a set of strings is not fixed by the program, so the handler takes it as a
  parameter: a function from the list put into the set to the list read back. Python
  guarantees that the list read back has the elements of the set, each once.
\<close>

definition set_iteration :: "(pystr list \<Rightarrow> pystr list) \<Rightarrow> bool" where
  "set_iteration order = (\<forall>xs. distinct (order xs) \<and> set (order xs) = set xs)"

definition sources :: "(pystr list \<Rightarrow> pystr list) \<Rightarrow> metadata list \<Rightarrow> pystr list" where
  "sources order metadatas = order (map source metadatas)"

text \<open>Lines 105-123: the prompt, an f-string of nineteen lines, each but the empty ones
  indented by twelve spaces. The fixed lines are given by their code points.\<close>

definition indent :: pystr where
  "indent = replicate 12 32"

definition prompt_l106 :: pystr where
  "prompt_l106 =
     [45320, 45716, 32, 51204, 47928, 32, 51648, 49885, 32, 48708, 49436, 50556, 46, 32,
      91, 52280, 44256, 32, 47928, 54732, 93, 51012, 32, 48148, 53461, 51004, 47196, 32,
      51656, 47928, 50640, 32, 45813, 54644, 51480, 46]"

definition prompt_l107 :: pystr where
  "prompt_l107 =
     [73, 84, 32, 51648, 49885, 51012, 32, 47784, 46160, 32, 54876, 50857, 54616, 44256,
      44, 32, 48152, 46300, 49884, 32, 52636, 52376, 47484, 32, 48157, 54784, 51480, 46]"

definition prompt_l108 :: pystr where
  "prompt_l108 =
     [44536, 47532, 44256, 32, 45320, 51032, 32, 51032, 44204, 51004, 47196, 32, 54616,
      51648, 47568, 44256, 32, 48152, 46300, 49884, 32, 100, 97, 116, 97, 54260, 45908,
      32, 50504, 51032, 32, 116, 120, 116, 44, 32, 112, 100, 102, 32, 54028, 51068, 32,
      44592, 48152, 51004, 47196, 32, 45813, 48320, 51012, 32, 54644, 51480]"

definition prompt_l109 :: pystr where
  "prompt_l109 =
     [44536, 47532, 44256, 32, 48152, 46300, 49884, 32, 52636, 52376, 47484, 32, 48157,
      54784, 51480, 32, 50612, 46500, 32, 116, 120, 116, 44, 32, 112, 100, 102, 32,
      54028, 51068, 51012, 32, 52280, 44256, 54664, 45716, 51648, 47484, 32, 47568,
      54644, 51480]"

definition prompt_l110 :: pystr where
  "prompt_l110 =
     [45813, 48320, 50640, 45716, 32, 54620, 51088, 44032, 32, 45208, 50724, 51648, 32,
      50506, 46020, 47197, 32, 54644, 51452, 49901, 49884, 50724, 46]"

definition prompt_l112 :: pystr where
  "prompt_l112 =
     [91, 51648, 49884, 32, 49324, 54637, 93, 58]"

definition prompt_l113 :: pystr where
  "prompt_l113 =
     [49, 46, 32, 45320, 51032, 32, 51452, 44288, 51201, 51064, 32, 51032, 44204, 51008,
      32, 48176, 51228, 54616, 44256, 44, 32, 48152, 46300, 49884, 32, 51228, 44277,
      46108, 32, 91, 52280, 44256, 32, 47928, 54732, 93, 51032, 32, 45236, 50857, 51012,
      32, 44592, 48152, 51004, 47196, 32, 45813, 48320, 54644, 46]"

definition prompt_l114 :: pystr where
  "prompt_l114 =
     [50, 46, 32, 45813, 48320, 32, 44284, 51221, 50640, 49436, 32, 50612, 46500, 32,
      54028, 51068, 40, 116, 120, 116, 44, 32, 112, 100, 102, 41, 51012, 32, 52280,
      44256, 54664, 45716, 51648, 32, 47749, 54869, 55176, 32, 50616, 44553, 54644, 46]"

definition prompt_l115 :: pystr where
  "prompt_l115 =
     [51, 46, 32, 91, 52280, 44256, 32, 47928, 54732, 93, 50640, 32, 51656, 47928,
      44284, 32, 44288, 47144, 46108, 32, 45236, 50857, 51060, 32, 50630, 51004, 47732,
      32, 34, 51228, 44277, 46108, 32, 47928, 49436, 32, 45236, 50640, 49436, 32, 44288,
      47144, 32, 51221, 48372, 47484, 32, 52286, 51012, 32, 49688, 32, 50630, 49845,
      45768, 45796, 34, 46972, 44256, 32, 51221, 51473, 55176, 32, 45813, 54644, 46]"

definition prompt_l117 :: pystr where
  "prompt_l117 =
     [91, 52280, 44256, 32, 47928, 54732, 93, 58]"

definition prompt_l122 :: pystr where
  "prompt_l122 =
     [45813, 48320, 58]"

definition prompt_question :: pystr where
  "prompt_question =
     [91, 51656, 47928, 93, 58, 32]"

definition prompt_lines :: "pystr \<Rightarrow> pystr \<Rightarrow> pystr list" where
  "prompt_lines ctx query =
     [[],
      indent @ prompt_l106,
      indent @ prompt_l107,
      indent @ prompt_l108,
      indent @ prompt_l109,
      indent @ prompt_l110,
      [],
      indent @ prompt_l112,
      indent @ prompt_l113,
      indent @ prompt_l114,
      indent @ prompt_l115,
      [],
      indent @ prompt_l117,
      indent @ ctx,
      [],
      indent @ prompt_question @ query,
      [],
      indent @ prompt_l122,
      indent]"

definition prompt :: "pystr \<Rightarrow> pystr \<Rightarrow> pystr" where
  "prompt ctx query = join [10] (prompt_lines ctx query)"

text \<open>The instruction to decline: the sentence of line 115 after its number, and the
  reply it asks for.\<close>

definition decline_instruction :: pystr where
  "decline_instruction =
     [91, 52280, 44256, 32, 47928, 54732, 93, 50640, 32, 51656, 47928, 44284, 32, 44288,
      47144, 46108, 32, 45236, 50857, 51060, 32, 50630, 51004, 47732, 32, 34, 51228,
      44277, 46108, 32, 47928, 49436, 32, 45236, 50640, 49436, 32, 44288, 47144, 32,
      51221, 48372, 47484, 32, 52286, 51012, 32, 49688, 32, 50630, 49845, 45768, 45796,
      34, 46972, 44256, 32, 51221, 51473, 55176, 32, 45813, 54644, 46]"

definition decline_reply :: pystr where
  "decline_reply =
     [51228, 44277, 46108, 32, 47928, 49436, 32, 45236, 50640, 49436, 32, 44288, 47144,
      32, 51221, 48372, 47484, 32, 52286, 51012, 32, 49688, 32, 50630, 49845, 45768,
      45796]"

definition source_links_head :: pystr where
  "source_links_head =
     [10, 10, 45, 45, 45, 10, 42, 42, 128205, 32, 52280, 44256, 46108, 32, 54028, 51068,
      46308, 58, 42, 42, 32]"

text \<open>Lines 125-129: the request sent to the completion service (its temperature, the
  floating-point constant 0.1, is left out).\<close>

record completion_request =
  user_content :: pystr
  model :: pystr

text \<open>The result of \<open>collection.query\<close>, as lines 92-93 read it.\<close>

record query_result =
  result_documents :: "pystr list"
  result_metadatas :: "metadata list"

text \<open>What one chat turn does: the requests it sent to the completion service, and the
  answer shown or the exception that ended the turn.\<close>

record turn =
  requests :: "completion_request list"
  shown :: "exc + pystr"

text \<open>
  Lines 90-136. The index search and the completion service are the handler's
  environment: each returns its result or raises, and an exception of either ends the
  turn (nothing in the handler catches it).
\<close>

definition chat_turn ::
  "(pystr list \<Rightarrow> pystr list) \<Rightarrow> (pystr \<Rightarrow> nat \<Rightarrow> exc + query_result) \<Rightarrow>
   (completion_request \<Rightarrow> exc + pystr) \<Rightarrow> pystr \<Rightarrow> turn" where
  "chat_turn order query_index completion query =
     (case query_index query 3 of
        Inl e \<Rightarrow> \<lparr>requests = [], shown = Inl e\<rparr>
      | Inr results \<Rightarrow>
          (let ctx = context_text (result_documents results) (result_metadatas results);
               srcs = sources order (result_metadatas results);
               request = \<lparr>user_content = prompt ctx query,
                          model = ascii ''llama-3.3-70b-versatile''\<rparr>
           in case completion request of
                Inl e \<Rightarrow> \<lparr>requests = [request], shown = Inl e\<rparr>
              | Inr response \<Rightarrow>
                  \<lparr>requests = [request],
                   shown = Inr (response @ source_links_head @ join (ascii '', '') srcs)\<rparr>))"

section \<open>Notions of the specification\<close>

text \<open>The chunk count the specification gives for a text of length L:
  \<open>ceil(max(L - overlap, 0) / (chunk_size - overlap))\<close> when \<open>L > 0\<close>, else 0.\<close>

definition spec_chunk_count :: "nat \<Rightarrow> nat" where
  "spec_chunk_count L =
     (if 0 < L then
        nat \<lceil>real_of_int (max (int L - int overlap) 0) / real_of_int (int chunk_size - int overlap)\<rceil>
      else 0)"

text \<open>The specification's byte offset of position \<open>i\<close> of a text: the number of bytes of the
  text before it, in UTF-8 (the encoding line 40 reads the files in).\<close>

definition utf8_width :: "nat \<Rightarrow> nat" where
  "utf8_width cp = (if cp < 128 then 1 else if cp < 2048 then 2 else if cp < 65536 then 3 else 4)"

definition spec_byte_offset :: "pystr \<Rightarrow> nat \<Rightarrow> nat" where
  "spec_byte_offset s i = sum_list (map utf8_width (take i s))"

section \<open>Notions used to state and prove the properties\<close>

text \<open>The ids a synchronization pass upserts: for every listed file, the ids of the
  chunks of the content read from it.\<close>

definition upserted_ids :: "filesystem \<Rightarrow> pystr set" where
  "upserted_ids fs =
     (\<Union>filename \<in> set (listdir fs).
        chunk_id filename ` set (chunk_offsets (fst (read_content fs filename))))"

text \<open>The character range of a chunk, given with its offset: the positions of the text
  it holds.\<close>

definition char_range :: "nat \<times> pystr \<Rightarrow> nat set" where
  "char_range ch = {fst ch..<fst ch + length (snd ch)}"

text \<open>The upserts the loop of lines 55-62 performs for one file, in order: id and entry.\<close>

definition file_upserts :: "pystr \<Rightarrow> pystr \<Rightarrow> (pystr \<times> entry) list" where
  "file_upserts filename content =
     map (\<lambda>i. (chunk_id filename i,
               \<lparr>document = chunk_at content i, meta = \<lparr>source = filename\<rparr>\<rparr>))
       (chunk_offsets content)"

text \<open>The upserts of a pass over the given file names, in order.\<close>

definition sync_upserts :: "filesystem \<Rightarrow> pystr list \<Rightarrow> (pystr \<times> entry) list" where
  "sync_upserts fs names =
     concat (map (\<lambda>filename. file_upserts filename (fst (read_content fs filename))) names)"

section \<open>Example directories\<close>

text \<open>A directory that lists only \<open>a.txt\<close>, whose text is now \<open>hi\<close>, and a collection that
  still holds a chunk of a file no longer listed and a chunk of \<open>a.txt\<close> from when it was
  longer than 650 characters.\<close>

definition shrunk_fs :: filesystem where
  "shrunk_fs =
     \<lparr>listdir = [ascii ''a.txt''],
      read_text = (\<lambda>path. Inr (ascii ''hi'')),
      pdf_reader = (\<lambda>path. Inl (Exc []))\<rparr>"

definition old_entry :: entry where
  "old_entry = \<lparr>document = ascii ''old'', meta = \<lparr>source = ascii ''old.txt''\<rparr>\<rparr>"

definition tail_entry :: entry where
  "tail_entry = \<lparr>document = ascii ''tail'', meta = \<lparr>source = ascii ''a.txt''\<rparr>\<rparr>"

definition stale_state :: app_state where
  "stale_state =
     \<lparr>collection_of =
        [chunk_id (ascii ''old.txt'') 0 \<mapsto> old_entry, chunk_id (ascii ''a.txt'') 650 \<mapsto> tail_entry],
      sidebar_errors = []\<rparr>"

text \<open>A collection with nothing in it and no error shown.\<close>

definition empty_state :: app_state where
  "empty_state = \<lparr>collection_of = Map.empty, sidebar_errors = []\<rparr>"

text \<open>A directory of files that give no text: \<open>a.txt\<close> cannot be read, \<open>c.txt\<close> is empty, and
  the two pages of \<open>b.pdf\<close> have no extractable text.\<close>

definition empty_text_fs :: filesystem where
  "empty_text_fs =
     \<lparr>listdir = [ascii ''a.txt'', ascii ''b.pdf'', ascii ''c.txt''],
      read_text = (\<lambda>path. if path = ascii ''a.txt'' then Inl (Exc (ascii ''denied'')) else Inr []),
      pdf_reader = (\<lambda>path. Inr [Inr [], Inr []])\<rparr>"

text \<open>A directory of files that fail: \<open>a.txt\<close> cannot be read, \<open>b.pdf\<close> is not a PDF,
  the second page of \<open>c.pdf\<close> raises after the first gave \<open>hello\<close>, the second page of
  \<open>e.pdf\<close> raises after the first gave no text; \<open>d.txt\<close> reads as \<open>hi\<close>.\<close>

definition failing_fs :: filesystem where
  "failing_fs =
     \<lparr>listdir = [ascii ''a.txt'', ascii ''b.pdf'', ascii ''c.pdf'', ascii ''d.txt'', ascii ''e.pdf''],
      read_text =
        (\<lambda>path. if path = ascii ''a.txt'' then Inl (Exc (ascii ''denied'')) else Inr (ascii ''hi'')),
      pdf_reader =
        (\<lambda>path. if path = ascii ''b.pdf'' then Inl (Exc (ascii ''broken''))
                else if path = ascii ''e.pdf'' then Inr [Inr [], Inl (Exc (ascii ''bad''))]
                else Inr [Inr (ascii ''hello''), Inl (Exc (ascii ''boom'')), Inr (ascii ''more'')])\<rparr>"

text \<open>A directory with one PDF whose second page raises after the first gave \<open>hello\<close>.\<close>

definition partial_pdf_fs :: filesystem where
  "partial_pdf_fs =
     \<lparr>listdir = [ascii ''a.pdf''],
      read_text = (\<lambda>path. Inl (Exc [])),
      pdf_reader = (\<lambda>path. Inr [Inr (ascii ''hello''), Inl (Exc (ascii ''boom''))])\<rparr>"

text \<open>An index search that finds nothing, and a completion service that answers \<open>ok\<close>.\<close>

definition no_results :: "pystr \<Rightarrow> nat \<Rightarrow> exc + query_result" where
  "no_results query n = Inr \<lparr>result_documents = [], result_metadatas = []\<rparr>"

definition answers_ok :: "completion_request \<Rightarrow> exc + pystr" where
  "answers_ok request = Inr (ascii ''ok'')"

section \<open>The range loop\<close>

lemma ceil_step:
  fixes i stop step :: nat
  assumes "0 < step" "i < stop"
  shows "(stop - i + step - 1) div step = Suc ((stop - (i + step) + step - 1) div step)"
proof (cases "i + step \<le> stop")
  case True
  with assms have "stop - i + step - 1 = (stop - (i + step) + step - 1) + step"
    by simp
  then have "(stop - i + step - 1) div step = ((stop - (i + step) + step - 1) + step) div step"
    by (rule arg_cong)
  also have "\<dots> = Suc ((stop - (i + step) + step - 1) div step)"
    using assms(1) by (simp only: div_add_self2)
  finally show ?thesis .
next
  case False
  with assms have a: "stop - (i + step) + step - 1 < step"
    and b: "stop - i + step - 1 = (stop - i - 1) + step" and c: "stop - i - 1 < step"
    by simp_all
  have "(stop - i + step - 1) div step = ((stop - i - 1) + step) div step"
    using b by (rule arg_cong)
  also have "\<dots> = Suc ((stop - i - 1) div step)"
    using assms(1) by (simp only: div_add_self2)
  finally show ?thesis using a c by simp
qed

lemma py_range_map:
  "0 < step \<Longrightarrow>
   py_range i stop step = map (\<lambda>k. i + k * step) [0..<(stop - i + step - 1) div step]"
proof (induction i stop step rule: py_range.induct)
  case (1 i stop step)
  show ?case
  proof (cases "i < stop")
    case True
    let ?n = "(stop - (i + step) + step - 1) div step"
    have n: "(stop - i + step - 1) div step = Suc ?n"
      using ceil_step [OF \<open>0 < step\<close> True] .
    have "py_range i stop step = i # py_range (i + step) stop step"
      using True \<open>0 < step\<close> by (subst py_range.simps) simp
    also have "\<dots> = i # map (\<lambda>k. i + step + k * step) [0..<?n]"
      using 1 True by simp
    also have "\<dots> = map (\<lambda>k. i + k * step) [0..<Suc ?n]"
      by (simp add: upt_conv_Cons map_Suc_upt [symmetric] del: upt_Suc)
    finally show ?thesis using n by simp
  next
    case False
    then have "(stop - i + step - 1) div step = 0" using \<open>0 < step\<close> by simp
    then show ?thesis using False
      by (subst py_range.simps) simp
  qed
qed

lemma chunk_offsets_map:
  "chunk_offsets content = map (\<lambda>k. k * 650) [0..<(length content + 649) div 650]"
  by (simp add: chunk_offsets_def chunk_size_def overlap_def py_range_map add.commute)

section \<open>Chunk count\<close>

text \<open>
  C1 (as the code has it). For a text of length L the loop makes \<open>ceil(L / 650)\<close> chunks,
  none when L = 0: it steps by 650 until the offset reaches L. The k-th chunk starts at
  offset \<open>650 * k\<close>.
\<close>

theorem chunk_count:
  "length (chunks content) = nat \<lceil>real (length content) / 650\<rceil> \<and>
   length (chunks content) = (length content + 649) div 650 \<and>
   map fst (chunks content) = map (\<lambda>k. k * 650) [0..<length (chunks content)] \<and>
   (chunks content = [] \<longleftrightarrow> length content = 0)"
proof -
  let ?L = "length content"
  have len: "length (chunks content) = (?L + 649) div 650"
    by (simp add: chunks_def chunk_offsets_map)
  have "\<lceil>real ?L / 650\<rceil> = \<lceil>real_of_int (int ?L) / real_of_int 650\<rceil>" by simp
  also have "\<dots> = - ((- int ?L) div 650)"
    by (simp only: ceiling_divide_eq_div)
  also have "\<dots> = (int ?L + 649) div 650" by linarith
  finally have "nat \<lceil>real ?L / 650\<rceil> = (?L + 649) div 650"
    by (simp add: nat_div_distrib nat_add_distrib)
  moreover have "map fst (chunks content) = map (\<lambda>k. k * 650) [0..<length (chunks content)]"
    unfolding len by (simp add: chunks_def chunk_offsets_map comp_def)
  moreover have "chunks content = [] \<longleftrightarrow> ?L = 0"
  proof -
    have "(?L + 649) div 650 = 0 \<longleftrightarrow> ?L = 0" by linarith
    then show ?thesis using len by (metis length_0_conv)
  qed
  ultimately show ?thesis using len by simp
qed

text \<open>The claim as the specification states it fails at length 2000: the loop makes the
  four chunks at offsets 0, 650, 1300 and 1950, the formula gives 3.\<close>

theorem chunk_count_counterexample:
  "length (chunks (replicate 2000 97)) = 4 \<and>
   map fst (chunks (replicate 2000 97)) = [0, 650, 1300, 1950] \<and>
   spec_chunk_count 2000 = 3 \<and>
   length (chunks (replicate 2000 97)) \<noteq> spec_chunk_count (length (replicate 2000 (97::nat)))"
proof -
  have a: "map fst (chunks (replicate 2000 97)) = [0, 650, 1300, 1950]"
    by (simp add: chunks_def chunk_offsets_map comp_def upt_conv_Cons)
  have b: "spec_chunk_count 2000 = 3"
    by (simp add: spec_chunk_count_def chunk_size_def overlap_def)
  have c: "length (chunks (replicate 2000 97)) = 4"
    using arg_cong [OF a, of length] by simp
  show ?thesis using a b c by simp
qed

section \<open>Chunk coverage\<close>

lemma length_chunk_at: "length (chunk_at content i) = min 800 (length content - i)"
  by (simp add: chunk_at_def slice_def chunk_size_def)

lemma length_chunks: "length (chunks content) = (length content + 649) div 650"
  by (simp add: chunks_def chunk_offsets_map)

lemma chunks_nth:
  "k < length (chunks content) \<Longrightarrow> chunks content ! k = (k * 650, chunk_at content (k * 650))"
  by (simp add: chunks_def chunk_offsets_map)

lemma chunk_start_less:
  "k < length (chunks content) \<Longrightarrow> k * 650 < length content"
  unfolding length_chunks by linarith

lemma char_range_nth:
  assumes "k < length (chunks content)"
  shows "char_range (chunks content ! k) = {k * 650..<min (k * 650 + 800) (length content)}"
  using chunk_start_less [OF assms]
  by (auto simp add: chunks_nth [OF assms] char_range_def length_chunk_at)

lemma chunks_cover:
  "(\<Union>ch \<in> set (chunks content). char_range ch) = {0..<length content}"
proof (intro equalityI subsetI)
  fix p assume "p \<in> (\<Union>ch \<in> set (chunks content). char_range ch)"
  then obtain k where k: "k < length (chunks content)" and "p \<in> char_range (chunks content ! k)"
    by (auto simp: in_set_conv_nth)
  then show "p \<in> {0..<length content}"
    by (simp add: char_range_nth)
next
  fix p assume "p \<in> {0..<length content}"
  then have p: "p < length content" by simp
  let ?k = "p div 650"
  have k: "?k < length (chunks content)"
    unfolding length_chunks using p by linarith
  have "p \<in> char_range (chunks content ! ?k)"
    unfolding char_range_nth [OF k] using p by simp
  then show "p \<in> (\<Union>ch \<in> set (chunks content). char_range ch)"
    using k nth_mem by blast
qed

lemma overlap_card:
  assumes "0 < k" "k < length (chunks content)"
  shows "card (char_range (chunks content ! (k - 1)) \<inter> char_range (chunks content ! k)) =
         min 150 (length (snd (chunks content ! k)))"
proof -
  from assms have k1: "k - 1 < length (chunks content)" by simp
  have eq: "(k - 1) * 650 = k * 650 - 650" by (simp add: diff_mult_distrib)
  have ge: "650 \<le> k * 650" using assms(1) by simp
  have lt: "k * 650 < length content" using chunk_start_less [OF assms(2)] .
  have r1: "char_range (chunks content ! (k - 1)) =
      {k * 650 - 650..<min (k * 650 - 650 + 800) (length content)}"
    using char_range_nth [OF k1] unfolding eq .
  have r2: "char_range (chunks content ! k) = {k * 650..<min (k * 650 + 800) (length content)}"
    using char_range_nth [OF assms(2)] .
  have len: "length (snd (chunks content ! k)) = min 800 (length content - k * 650)"
    by (simp add: chunks_nth [OF assms(2)] length_chunk_at)
  show ?thesis
    unfolding r1 r2 len Int_atLeastLessThan card_atLeastLessThan
    using ge lt by (simp add: min_def max_def) linarith
qed

lemma nonfinal_chunk_long:
  assumes "Suc k < length (chunks content)"
  shows "650 < length (snd (chunks content ! k))"
proof -
  from assms have k: "k < length (chunks content)" by simp
  have "Suc k * 650 < length content" using chunk_start_less [OF assms] .
  then have "650 < length content - k * 650" by simp
  then show ?thesis by (simp add: chunks_nth [OF k] length_chunk_at)
qed

lemma final_chunk_short:
  assumes "chunks content \<noteq> []"
  shows "length (snd (last (chunks content))) \<le> 650"
proof -
  let ?n = "length (chunks content)"
  from assms have k: "?n - 1 < ?n" by simp
  have a: "length content \<le> ?n * 650" unfolding length_chunks by linarith
  have b: "(?n - 1) * 650 = ?n * 650 - 650" by (simp add: diff_mult_distrib)
  have "length (snd (last (chunks content))) = min 800 (length content - (?n * 650 - 650))"
    unfolding last_conv_nth [OF assms] chunks_nth [OF k] b by (simp add: length_chunk_at)
  then show ?thesis using a by simp
qed


lemma chunk_is_slice:
  assumes "ch \<in> set (chunks content)"
  shows "length (snd ch) \<le> 800 \<and> snd ch \<noteq> [] \<and>
         snd ch = slice content (fst ch) (fst ch + length (snd ch))"
proof -
  from assms obtain k where k: "k < length (chunks content)" and ch: "ch = chunks content ! k"
    by (auto simp: in_set_conv_nth)
  have lt: "k * 650 < length content" using chunk_start_less [OF k] .
  have "take (min (length content - i) 800) (drop i content) = take 800 (drop i content)" for i
    by (simp add: min_def)
  then show ?thesis
    using lt unfolding ch chunks_nth [OF k]
    by (simp add: chunk_at_def slice_def chunk_size_def)
qed

text \<open>
  C4. Every chunk has at most 800 characters and is the text at its character range;
  the ranges of the chunks together are exactly \<open>[0, L)\<close>; every chunk after the first
  that is not the last shares exactly 150 characters with its predecessor; the last
  chunk is shorter (at most 650 characters) and shares 150 characters with its
  predecessor, or all of its characters when it has fewer.
\<close>

theorem chunk_coverage:
  "(\<forall>ch \<in> set (chunks content).
      length (snd ch) \<le> 800 \<and> snd ch = slice content (fst ch) (fst ch + length (snd ch))) \<and>
   (\<Union>ch \<in> set (chunks content). char_range ch) = {0..<length content} \<and>
   (\<forall>k. 0 < k \<and> Suc k < length (chunks content) \<longrightarrow>
      card (char_range (chunks content ! (k - 1)) \<inter> char_range (chunks content ! k)) = 150) \<and>
   (\<forall>k. 0 < k \<and> Suc k = length (chunks content) \<longrightarrow>
      length (snd (chunks content ! k)) \<le> 650 \<and>
      card (char_range (chunks content ! (k - 1)) \<inter> char_range (chunks content ! k)) =
        min 150 (length (snd (chunks content ! k))))"
proof (intro conjI allI impI ballI)
  fix ch assume "ch \<in> set (chunks content)"
  from chunk_is_slice [OF this]
  show "length (snd ch) \<le> 800"
    and "snd ch = slice content (fst ch) (fst ch + length (snd ch))" by simp_all
next
  show "(\<Union>ch \<in> set (chunks content). char_range ch) = {0..<length content}"
    by (rule chunks_cover)
next
  fix k assume k: "0 < k \<and> Suc k < length (chunks content)"
  then have "150 \<le> length (snd (chunks content ! k))"
    using nonfinal_chunk_long [of k content] by simp
  then show "card (char_range (chunks content ! (k - 1)) \<inter> char_range (chunks content ! k)) = 150"
    using overlap_card [of k content] k by simp
next
  fix k assume k: "0 < k \<and> Suc k = length (chunks content)"
  then have ne: "chunks content \<noteq> []" and "k = length (chunks content) - 1" by auto
  then show "length (snd (chunks content ! k)) \<le> 650"
    using final_chunk_short [OF ne] by (simp add: last_conv_nth)
  show "card (char_range (chunks content ! (k - 1)) \<inter> char_range (chunks content ! k)) =
        min 150 (length (snd (chunks content ! k)))"
    using overlap_card [of k content] k by simp
qed

theorem chunk_coverage_witness:
  "length (snd (chunks (replicate 2000 97) ! 1)) \<le> 800 \<and>
   (\<Union>ch \<in> set (chunks (replicate 2000 97)). char_range ch) = {0..<2000} \<and>
   card (char_range (chunks (replicate 2000 97) ! 0) \<inter>
         char_range (chunks (replicate 2000 97) ! 1)) = 150 \<and>
   card (char_range (chunks (replicate 2000 97) ! 2) \<inter>
         char_range (chunks (replicate 2000 97) ! 3)) = 50"
proof -
  let ?w = "replicate 2000 (97::nat)"
  note t = chunk_coverage [of ?w]
  have n: "length (chunks ?w) = 4" by (simp add: length_chunks)
  have m: "chunks ?w ! 1 \<in> set (chunks ?w)" by (rule nth_mem) (simp add: n)
  have a: "length (snd (chunks ?w ! 1)) \<le> 800"
    using t [THEN conjunct1, rule_format, OF m] by simp
  have b: "(\<Union>ch \<in> set (chunks ?w). char_range ch) = {0..<2000}"
    using t [THEN conjunct2, THEN conjunct1] by simp
  have c: "card (char_range (chunks ?w ! (1 - 1)) \<inter> char_range (chunks ?w ! 1)) = 150"
    using t [THEN conjunct2, THEN conjunct2, THEN conjunct1, rule_format, of 1] n by simp
  have d: "card (char_range (chunks ?w ! (3 - 1)) \<inter> char_range (chunks ?w ! 3)) =
      min 150 (length (snd (chunks ?w ! 3)))"
    using t [THEN conjunct2, THEN conjunct2, THEN conjunct2, rule_format, of 3] n by simp
  have e: "length (snd (chunks ?w ! 3)) = 50"
    by (simp add: chunks_nth n length_chunk_at)
  show ?thesis using a b c d e by simp
qed

section \<open>Chunk ids\<close>

lemma str_of_nat_not_Nil: "str_of_nat n \<noteq> []"
  by (subst str_of_nat.simps) simp

lemma str_of_nat_digits: "c \<in> set (str_of_nat n) \<Longrightarrow> 48 \<le> c \<and> c \<le> 57"
proof (induction n rule: str_of_nat.induct)
  case (1 n)
  show ?case
  proof (cases "n < 10")
    case True
    with 1(2) show ?thesis by (subst (asm) str_of_nat.simps) simp
  next
    case False
    with 1(2) have "c \<in> set (str_of_nat (n div 10)) \<or> c = 48 + n mod 10"
      by (subst (asm) str_of_nat.simps) auto
    then show ?thesis
    proof
      assume "c \<in> set (str_of_nat (n div 10))"
      with 1(1) False show ?thesis by simp
    next
      assume "c = 48 + n mod 10"
      moreover have "n mod 10 < 10" by simp
      ultimately show ?thesis by linarith
    qed
  qed
qed

lemma str_of_nat_inj: "str_of_nat n = str_of_nat m \<Longrightarrow> n = m"
proof (induction n arbitrary: m rule: str_of_nat.induct)
  case (1 n)
  show ?case
  proof (cases "n < 10")
    case n: True
    show ?thesis
    proof (cases "m < 10")
      case True
      with n 1(2) show ?thesis
        by (simp add: str_of_nat.simps [of n] str_of_nat.simps [of m])
    next
      case False
      with n 1(2) have "[48 + n] = str_of_nat (m div 10) @ [48 + m mod 10]"
        by (simp add: str_of_nat.simps [of n] str_of_nat.simps [of m])
      then have "str_of_nat (m div 10) = []" by simp
      then show ?thesis using str_of_nat_not_Nil by blast
    qed
  next
    case n: False
    show ?thesis
    proof (cases "m < 10")
      case True
      with n 1(2) have "str_of_nat (n div 10) @ [48 + n mod 10] = [48 + m]"
        by (simp add: str_of_nat.simps [of n] str_of_nat.simps [of m])
      then have "str_of_nat (n div 10) = []" by simp
      then show ?thesis using str_of_nat_not_Nil by blast
    next
      case False
      with n 1(2) have
        "str_of_nat (n div 10) @ [48 + n mod 10] = str_of_nat (m div 10) @ [48 + m mod 10]"
        by (simp add: str_of_nat.simps [of n] str_of_nat.simps [of m])
      then have "str_of_nat (n div 10) = str_of_nat (m div 10)" and md: "n mod 10 = m mod 10"
        by simp_all
      with 1(1) n have "n div 10 = m div 10" by blast
      with md show ?thesis by (metis div_mult_mod_eq)
    qed
  qed
qed

lemma ascii_part: "ascii ''_part_'' = [95, 112, 97, 114, 116, 95]"
  by (simp add: ascii_def)

lemma chunk_id_inj:
  assumes "chunk_id f i = chunk_id g j"
  shows "f = g \<and> i = j"
proof -
  let ?p = "[95, 112, 97, 114, 116] :: pystr"
  let ?P = "\<lambda>c::nat. c \<noteq> 95"
  have u: "takeWhile ?P (rev (str_of_nat n) @ 95 # xs) = rev (str_of_nat n)" for n xs
  proof -
    have "\<And>c. c \<in> set (rev (str_of_nat n)) \<Longrightarrow> c \<noteq> 95"
      using str_of_nat_digits [of _ n] by fastforce
    then have "takeWhile ?P (rev (str_of_nat n) @ 95 # xs) =
        rev (str_of_nat n) @ takeWhile ?P (95 # xs)"
      by (rule takeWhile_append2)
    then show ?thesis by simp
  qed
  from assms have "(f @ ?p) @ 95 # str_of_nat i = (g @ ?p) @ 95 # str_of_nat j"
    by (simp add: chunk_id_def ascii_part)
  then have "rev ((f @ ?p) @ 95 # str_of_nat i) = rev ((g @ ?p) @ 95 # str_of_nat j)"
    by (rule arg_cong)
  then have e: "rev (str_of_nat i) @ 95 # rev (f @ ?p) = rev (str_of_nat j) @ 95 # rev (g @ ?p)"
    by simp
  then have "takeWhile ?P (rev (str_of_nat i) @ 95 # rev (f @ ?p)) =
      takeWhile ?P (rev (str_of_nat j) @ 95 # rev (g @ ?p))"
    by (rule arg_cong)
  then have d: "rev (str_of_nat i) = rev (str_of_nat j)"
    unfolding u .
  then have "i = j" using str_of_nat_inj by simp
  moreover from e d have "f = g" by simp
  ultimately show ?thesis by simp
qed

lemma chunk_id_eq_iff: "chunk_id f i = chunk_id g j \<longleftrightarrow> f = g \<and> i = j"
  using chunk_id_inj by blast

lemma chunk_offsets_distinct: "distinct (chunk_offsets content)"
  by (simp add: chunk_offsets_map distinct_map inj_on_def)

lemma chunk_id_offsets_distinct: "distinct (map (chunk_id filename) (chunk_offsets content))"
  using chunk_offsets_distinct chunk_id_inj by (auto simp: distinct_map inj_on_def)

section \<open>The upserts of a pass\<close>

lemma fold_upsert:
  "fold (\<lambda>i c'. upsert c' (kf i) (df i) m) is c =
   c ++ map_of (rev (map (\<lambda>i. (kf i, \<lparr>document = df i, meta = m\<rparr>)) is))"
  by (induction "is" arbitrary: c) (simp_all add: upsert_def map_add_upd_left [symmetric])

lemma chunk_offsets_Nil: "chunk_offsets [] = []"
  by (simp add: chunk_offsets_map)

lemma index_content_upserts:
  "index_content filename content c = c ++ map_of (rev (file_upserts filename content))"
  by (simp add: index_content_def file_upserts_def fold_upsert chunk_offsets_Nil)

lemma sync_file_collection:
  "collection_of (sync_file fs filename s) =
   collection_of s ++ map_of (rev (file_upserts filename (fst (read_content fs filename))))"
  by (simp add: sync_file_def index_content_upserts split: prod.splits)

lemma fold_sync_file_collection:
  "collection_of (fold (sync_file fs) names s) =
   collection_of s ++ map_of (rev (sync_upserts fs names))"
  by (induction names arbitrary: s)
     (simp_all add: sync_upserts_def sync_file_collection map_add_assoc)

lemma load_files_collection:
  "collection_of (snd (load_files_to_db fs s)) =
   collection_of s ++ map_of (rev (sync_upserts fs (listdir fs)))"
  by (simp add: load_files_to_db_def fold_sync_file_collection)

lemma sync_upserts_ids: "fst ` set (sync_upserts fs (listdir fs)) = upserted_ids fs"
  by (force simp: sync_upserts_def upserted_ids_def file_upserts_def image_iff)

section \<open>Re-synchronization\<close>

text \<open>
  C3. Running the synchronization a second time over the same directory leaves the
  collection of the first run as it is: the same entries under the same ids, and so the
  same number of entries.
\<close>

theorem resync_idempotent:
  "collection_of (snd (load_files_to_db fs (snd (load_files_to_db fs s)))) =
     collection_of (snd (load_files_to_db fs s)) \<and>
   card (dom (collection_of (snd (load_files_to_db fs (snd (load_files_to_db fs s)))))) =
     card (dom (collection_of (snd (load_files_to_db fs s))))"
proof -
  let ?m = "map_of (rev (sync_upserts fs (listdir fs)))"
  have "collection_of (snd (load_files_to_db fs (snd (load_files_to_db fs s)))) =
      (collection_of s ++ ?m) ++ ?m"
    by (simp only: load_files_collection)
  also have "\<dots> = collection_of s ++ ?m"
    by (rule ext) (simp add: map_add_def split: option.split)
  also have "\<dots> = collection_of (snd (load_files_to_db fs s))"
    by (simp only: load_files_collection)
  finally show ?thesis by simp
qed

section \<open>Synchronization only inserts or overwrites\<close>

lemma load_files_other_id:
  assumes "cid \<notin> upserted_ids fs"
  shows "collection_of (snd (load_files_to_db fs s)) cid = collection_of s cid"
proof -
  have "cid \<notin> dom (map_of (rev (sync_upserts fs (listdir fs))))"
    using assms by (simp add: dom_map_of_conv_image_fst sync_upserts_ids)
  then show ?thesis
    by (simp add: load_files_collection map_add_dom_app_simps)
qed

lemma chunk_offsets_less: "i \<in> set (chunk_offsets content) \<Longrightarrow> i < length content"
proof -
  assume "i \<in> set (chunk_offsets content)"
  then obtain k where "k < (length content + 649) div 650" and "i = k * 650"
    by (auto simp: chunk_offsets_map)
  then show ?thesis by linarith
qed

text \<open>
  C9. A synchronization pass leaves every entry whose id it does not upsert as it was,
  and the ids of the collection afterwards are those before and those upserted: nothing
  is deleted. In particular the entries of a file that is no longer listed stay, and so
  do the entries of a listed file at offsets that are not chunk offsets of its present
  content, such as the offsets at or beyond its present length.
\<close>

theorem sync_never_deletes:
  "(cid \<notin> upserted_ids fs \<longrightarrow>
      collection_of (snd (load_files_to_db fs s)) cid = collection_of s cid) \<and>
   dom (collection_of (snd (load_files_to_db fs s))) = dom (collection_of s) \<union> upserted_ids fs \<and>
   (filename \<notin> set (listdir fs) \<longrightarrow>
      collection_of (snd (load_files_to_db fs s)) (chunk_id filename i) =
        collection_of s (chunk_id filename i)) \<and>
   (i \<notin> set (chunk_offsets (fst (read_content fs filename))) \<longrightarrow>
      collection_of (snd (load_files_to_db fs s)) (chunk_id filename i) =
        collection_of s (chunk_id filename i)) \<and>
   (length (fst (read_content fs filename)) \<le> i \<longrightarrow>
      collection_of (snd (load_files_to_db fs s)) (chunk_id filename i) =
        collection_of s (chunk_id filename i))"
proof -
  have other: "i \<notin> set (chunk_offsets (fst (read_content fs filename))) \<Longrightarrow>
      chunk_id filename i \<notin> upserted_ids fs"
    by (auto simp: upserted_ids_def dest: chunk_id_inj)
  have removed: "filename \<notin> set (listdir fs) \<Longrightarrow> chunk_id filename i \<notin> upserted_ids fs"
    by (auto simp: upserted_ids_def dest: chunk_id_inj)
  have beyond: "length (fst (read_content fs filename)) \<le> i \<Longrightarrow>
      i \<notin> set (chunk_offsets (fst (read_content fs filename)))"
    using chunk_offsets_less [of i "fst (read_content fs filename)"] by auto
  have "dom (collection_of (snd (load_files_to_db fs s))) =
      dom (collection_of s) \<union> upserted_ids fs"
    by (simp add: load_files_collection dom_map_of_conv_image_fst sync_upserts_ids Un_commute)
  then show ?thesis
    using load_files_other_id other removed beyond by blast
qed

lemma shrunk_fs_content: "read_content shrunk_fs (ascii ''a.txt'') = (ascii ''hi'', [])"
  by (simp add: read_content_def shrunk_fs_def endswith_def ascii_def)

theorem sync_never_deletes_witness:
  "collection_of (snd (load_files_to_db shrunk_fs stale_state)) (chunk_id (ascii ''old.txt'') 0) =
     Some old_entry \<and>
   collection_of (snd (load_files_to_db shrunk_fs stale_state)) (chunk_id (ascii ''a.txt'') 650) =
     Some tail_entry \<and>
   dom (collection_of (snd (load_files_to_db shrunk_fs stale_state))) =
     {chunk_id (ascii ''old.txt'') 0, chunk_id (ascii ''a.txt'') 650, chunk_id (ascii ''a.txt'') 0}"
proof -
  have off: "chunk_offsets (ascii ''hi'') = [0]"
    by (simp add: chunk_offsets_map ascii_def)
  have l: "listdir shrunk_fs = [ascii ''a.txt'']"
    by (simp add: shrunk_fs_def)
  have ids: "upserted_ids shrunk_fs = {chunk_id (ascii ''a.txt'') 0}"
    by (simp add: upserted_ids_def l shrunk_fs_content off)
  have h1: "chunk_id (ascii ''old.txt'') 0 \<notin> upserted_ids shrunk_fs"
    by (simp add: ids chunk_id_eq_iff ascii_def)
  have h3: "ascii ''old.txt'' \<notin> set (listdir shrunk_fs)"
    by (simp add: l ascii_def)
  have h4: "650 \<notin> set (chunk_offsets (fst (read_content shrunk_fs (ascii ''a.txt''))))"
    by (simp add: shrunk_fs_content off)
  have h5: "length (fst (read_content shrunk_fs (ascii ''a.txt''))) \<le> 650"
    by (simp add: shrunk_fs_content) (simp add: ascii_def)
  note t1 = sync_never_deletes [of "chunk_id (ascii ''old.txt'') 0" shrunk_fs stale_state
      "ascii ''old.txt''" 0]
  note t2 = sync_never_deletes [of "chunk_id (ascii ''old.txt'') 0" shrunk_fs stale_state
      "ascii ''a.txt''" 650]
  have s1: "collection_of stale_state (chunk_id (ascii ''old.txt'') 0) = Some old_entry"
    by (simp add: stale_state_def chunk_id_eq_iff ascii_def)
  have s2: "collection_of stale_state (chunk_id (ascii ''a.txt'') 650) = Some tail_entry"
    by (simp add: stale_state_def chunk_id_eq_iff ascii_def)
  have s3: "dom (collection_of stale_state) =
      {chunk_id (ascii ''old.txt'') 0, chunk_id (ascii ''a.txt'') 650}"
    by (auto simp add: stale_state_def)
  from t1 h1 h3 s1 have a: "collection_of (snd (load_files_to_db shrunk_fs stale_state))
      (chunk_id (ascii ''old.txt'') 0) = Some old_entry" by simp
  from t2 h4 h5 s2 have b: "collection_of (snd (load_files_to_db shrunk_fs stale_state))
      (chunk_id (ascii ''a.txt'') 650) = Some tail_entry" by simp
  from t1 s3 ids have c: "dom (collection_of (snd (load_files_to_db shrunk_fs stale_state))) =
     {chunk_id (ascii ''old.txt'') 0, chunk_id (ascii ''a.txt'') 650, chunk_id (ascii ''a.txt'') 0}"
    by auto
  show ?thesis using a b c by simp
qed

section \<open>The ids of one file's chunks\<close>

lemma index_content_lookup:
  assumes "i \<in> set (chunk_offsets content)"
  shows "index_content filename content c (chunk_id filename i) =
         Some \<lparr>document = chunk_at content i, meta = \<lparr>source = filename\<rparr>\<rparr>"
proof -
  let ?us = "file_upserts filename content"
  have "map fst ?us = map (chunk_id filename) (chunk_offsets content)"
    by (simp add: file_upserts_def comp_def)
  then have d: "distinct (map fst (rev ?us))"
    using chunk_id_offsets_distinct [of filename content] by (simp add: rev_map [symmetric])
  have "(chunk_id filename i, \<lparr>document = chunk_at content i, meta = \<lparr>source = filename\<rparr>\<rparr>)
      \<in> set (rev ?us)"
    using assms by (simp add: file_upserts_def)
  then have "map_of (rev ?us) (chunk_id filename i) =
      Some \<lparr>document = chunk_at content i, meta = \<lparr>source = filename\<rparr>\<rparr>"
    using d by (rule map_of_is_SomeI [rotated])
  then show ?thesis by (simp add: index_content_upserts)
qed

text \<open>
  C10. The offsets of one file's chunks increase strictly and the ids made from them are
  pairwise distinct, as many as there are chunks; after the file's loop every chunk is
  stored under its own id, so none was overwritten by another chunk of the file.
\<close>

theorem chunk_ids_distinct:
  "sorted_wrt (<) (chunk_offsets content) \<and>
   distinct (map (chunk_id filename) (chunk_offsets content)) \<and>
   card (chunk_id filename ` set (chunk_offsets content)) = length (chunks content) \<and>
   (\<forall>i \<in> set (chunk_offsets content).
      index_content filename content c (chunk_id filename i) =
        Some \<lparr>document = chunk_at content i, meta = \<lparr>source = filename\<rparr>\<rparr>)"
proof (intro conjI ballI)
  show "sorted_wrt (<) (chunk_offsets content)"
    by (simp add: chunk_offsets_map sorted_wrt_map sorted_wrt_upt)
  show d: "distinct (map (chunk_id filename) (chunk_offsets content))"
    by (rule chunk_id_offsets_distinct)
  have "card (chunk_id filename ` set (chunk_offsets content)) =
      length (map (chunk_id filename) (chunk_offsets content))"
    using distinct_card [OF d] by simp
  then show "card (chunk_id filename ` set (chunk_offsets content)) = length (chunks content)"
    by (simp add: chunks_def)
next
  fix i assume "i \<in> set (chunk_offsets content)"
  then show "index_content filename content c (chunk_id filename i) =
      Some \<lparr>document = chunk_at content i, meta = \<lparr>source = filename\<rparr>\<rparr>"
    by (rule index_content_lookup)
qed

theorem chunk_ids_distinct_witness:
  "index_content (ascii ''notes.txt'') (replicate 2000 97) Map.empty
     (chunk_id (ascii ''notes.txt'') 1300) =
     Some \<lparr>document = replicate 700 97, meta = \<lparr>source = ascii ''notes.txt''\<rparr>\<rparr> \<and>
   card (chunk_id (ascii ''notes.txt'') ` set (chunk_offsets (replicate 2000 97))) = 4"
proof -
  let ?w = "replicate 2000 (97::nat)"
  note t = chunk_ids_distinct [of ?w "ascii ''notes.txt''" Map.empty]
  have m: "1300 \<in> set (chunk_offsets ?w)"
    by (simp add: chunk_offsets_map upt_conv_Cons)
  have c: "chunk_at ?w 1300 = replicate 700 97"
    by (simp add: chunk_at_def slice_def chunk_size_def)
  have n: "length (chunks ?w) = 4" by (simp add: length_chunks)
  from t m c n show ?thesis by simp
qed

section \<open>The format of chunk ids\<close>

lemma index_content_dom:
  "dom (index_content filename content c) =
   dom c \<union> chunk_id filename ` set (chunk_offsets content)"
  by (auto simp add: index_content_upserts dom_map_of_conv_image_fst file_upserts_def image_iff)

lemma index_content_twice:
  "index_content filename content (index_content filename content c) =
   index_content filename content c"
  unfolding index_content_upserts
  by (rule ext) (simp add: map_add_def split: option.split)

text \<open>
  C5 (as the code has it). The id under which a chunk is upserted is the file name, then
  \<open>_part_\<close>, then the decimal offset at which the chunk starts in the extracted text,
  counted in characters (code points): the chunk is the slice of the text from that
  index. The ids a file's loop adds are exactly these; an id determines the file name
  and the offset; and running the loop again on the same content upserts the same
  entries under the same ids.
\<close>

theorem chunk_id_format:
  "(\<forall>ch \<in> set (chunks content).
      index_content filename content c (filename @ ascii ''_part_'' @ str_of_nat (fst ch)) =
        Some \<lparr>document = snd ch, meta = \<lparr>source = filename\<rparr>\<rparr> \<and>
      snd ch = slice content (fst ch) (fst ch + 800) \<and>
      fst ch < length content) \<and>
   dom (index_content filename content c) =
     dom c \<union> (\<lambda>i. filename @ ascii ''_part_'' @ str_of_nat i) ` set (chunk_offsets content) \<and>
   (chunk_id f i = chunk_id g j \<longleftrightarrow> f = g \<and> i = j) \<and>
   index_content filename content (index_content filename content c) =
     index_content filename content c"
proof (intro conjI ballI)
  fix ch assume "ch \<in> set (chunks content)"
  then obtain i where i: "i \<in> set (chunk_offsets content)" and ch: "ch = (i, chunk_at content i)"
    by (auto simp: chunks_def)
  show "index_content filename content c (filename @ ascii ''_part_'' @ str_of_nat (fst ch)) =
        Some \<lparr>document = snd ch, meta = \<lparr>source = filename\<rparr>\<rparr>"
    using index_content_lookup [OF i, of filename c] by (simp add: ch chunk_id_def)
  show "snd ch = slice content (fst ch) (fst ch + 800)"
    by (simp add: ch chunk_at_def chunk_size_def)
  show "fst ch < length content"
    using chunk_offsets_less [OF i] by (simp add: ch)
next
  show "dom (index_content filename content c) =
     dom c \<union> (\<lambda>i. filename @ ascii ''_part_'' @ str_of_nat i) ` set (chunk_offsets content)"
    using index_content_dom [of filename content c] by (simp add: chunk_id_def [abs_def])
  show "chunk_id f i = chunk_id g j \<longleftrightarrow> f = g \<and> i = j"
    by (rule chunk_id_eq_iff)
  show "index_content filename content (index_content filename content c) =
     index_content filename content c"
    by (rule index_content_twice)
qed

lemma str_of_nat_1300: "str_of_nat 1300 = ascii ''1300''"
  by (simp add: str_of_nat.simps ascii_def)

theorem chunk_id_format_witness:
  "index_content (ascii ''notes.txt'') (replicate 2000 97) Map.empty (ascii ''notes.txt_part_1300'') =
     Some \<lparr>document = replicate 700 97, meta = \<lparr>source = ascii ''notes.txt''\<rparr>\<rparr> \<and>
   replicate 700 97 = slice (replicate 2000 97) 1300 2100"
proof -
  let ?w = "replicate 2000 (97::nat)"
  note t = chunk_id_format [of ?w "ascii ''notes.txt''" Map.empty, THEN conjunct1, rule_format,
      of "(1300, replicate 700 97)"]
  have m: "(1300, replicate 700 97) \<in> set (chunks ?w)"
    by (simp add: chunks_def chunk_offsets_map upt_conv_Cons chunk_at_def slice_def chunk_size_def)
  have n: "ascii ''notes.txt'' @ ascii ''_part_'' @ str_of_nat 1300 = ascii ''notes.txt_part_1300''"
    by (simp add: str_of_nat_1300) (simp add: ascii_def)
  from t [OF m] show ?thesis by (simp add: n)
qed

text \<open>The offset in the id is not a byte offset. A text of 651 Korean syllables (three
  bytes each in UTF-8) has its second chunk at character 650, which is byte 1950: the
  chunk is stored under \<open>_part_650\<close>, and nothing is stored under \<open>_part_1950\<close>.\<close>

theorem chunk_id_format_counterexample:
  "chunks (replicate 651 44032) = [(0, replicate 651 44032), (650, [44032])] \<and>
   spec_byte_offset (replicate 651 44032) 650 = 1950 \<and>
   index_content (ascii ''k.txt'') (replicate 651 44032) Map.empty
     (ascii ''k.txt'' @ ascii ''_part_'' @ str_of_nat 650) =
     Some \<lparr>document = [44032], meta = \<lparr>source = ascii ''k.txt''\<rparr>\<rparr> \<and>
   index_content (ascii ''k.txt'') (replicate 651 44032) Map.empty
     (ascii ''k.txt'' @ ascii ''_part_'' @
        str_of_nat (spec_byte_offset (replicate 651 44032) 650)) = None"
proof -
  let ?w = "replicate 651 (44032::nat)"
  have off: "chunk_offsets ?w = [0, 650]"
    by (simp add: chunk_offsets_map upt_conv_Cons)
  have one: "replicate (Suc 0) (44032::nat) = [44032]" by simp
  have a: "chunks ?w = [(0, replicate 651 44032), (650, [44032])]"
    by (simp add: chunks_def off chunk_at_def slice_def chunk_size_def)
  have b: "spec_byte_offset ?w 650 = 1950"
    by (simp add: spec_byte_offset_def utf8_width_def sum_list_replicate)
  have m: "650 \<in> set (chunk_offsets ?w)" by (simp add: off)
  have c: "index_content (ascii ''k.txt'') ?w Map.empty (chunk_id (ascii ''k.txt'') 650) =
      Some \<lparr>document = [44032], meta = \<lparr>source = ascii ''k.txt''\<rparr>\<rparr>"
    using index_content_lookup [OF m, of "ascii ''k.txt''" Map.empty]
    by (simp add: chunk_at_def slice_def chunk_size_def)
  have "chunk_id (ascii ''k.txt'') 1950 \<notin> dom (index_content (ascii ''k.txt'') ?w Map.empty)"
    unfolding index_content_dom by (simp add: off chunk_id_eq_iff)
  then have d: "index_content (ascii ''k.txt'') ?w Map.empty (chunk_id (ascii ''k.txt'') 1950) = None"
    by blast
  show ?thesis using a b c d by (simp add: chunk_id_def)
qed

section \<open>Files that give no text\<close>

lemma pdf_not_txt:
  assumes "endswith filename (ascii ''.pdf'')"
  shows "\<not> endswith filename (ascii ''.txt'')"
proof
  assume "endswith filename (ascii ''.txt'')"
  with assms have "ascii ''.pdf'' = ascii ''.txt''"
    by (simp add: endswith_def ascii_def)
  then show False by (simp add: ascii_def)
qed

lemma extract_pages_no_text:
  "\<forall>p \<in> set pages. p = Inr [] \<Longrightarrow> extract_pages content pages = (content, None)"
  by (induction pages arbitrary: content) auto

lemma extract_pages_raise:
  "extract_pages content (map Inr texts @ Inl e # pages) =
   (content @ concat (map (\<lambda>t. t @ [10]) (filter (\<lambda>t. t \<noteq> []) texts)), Some e)"
  by (induction texts arbitrary: content) auto

lemma index_content_Nil: "index_content filename [] c = c"
  by (simp add: index_content_def)

text \<open>
  C6. An empty text has no chunks and its loop upserts nothing. A file whose content
  comes out empty leaves the collection as it was: a text file whose read failed, an
  empty text file, a PDF none of whose pages has extractable text. In the last two
  cases no error is reported either: the whole state is unchanged.
\<close>

theorem empty_content_no_chunks:
  "chunks [] = [] \<and>
   index_content filename [] c = c \<and>
   (fst (read_content fs filename) = [] \<longrightarrow>
      collection_of (sync_file fs filename s) = collection_of s) \<and>
   (endswith filename (ascii ''.txt'') \<and> read_text fs filename = Inl e \<longrightarrow>
      collection_of (sync_file fs filename s) = collection_of s) \<and>
   (endswith filename (ascii ''.txt'') \<and> read_text fs filename = Inr [] \<longrightarrow>
      sync_file fs filename s = s) \<and>
   (endswith filename (ascii ''.pdf'') \<and> pdf_reader fs filename = Inr pages \<and>
    (\<forall>p \<in> set pages. p = Inr []) \<longrightarrow>
      sync_file fs filename s = s)"
proof (intro conjI impI)
  show "chunks [] = []"
    by (simp add: chunks_def chunk_offsets_Nil)
  show "index_content filename [] c = c"
    by (rule index_content_Nil)
  show "collection_of (sync_file fs filename s) = collection_of s"
    if "fst (read_content fs filename) = []"
    using that by (cases "read_content fs filename") (simp add: sync_file_def index_content_Nil)
  show "collection_of (sync_file fs filename s) = collection_of s"
    if "endswith filename (ascii ''.txt'') \<and> read_text fs filename = Inl e"
    using that by (simp add: sync_file_def read_content_def index_content_Nil)
  show "sync_file fs filename s = s"
    if "endswith filename (ascii ''.txt'') \<and> read_text fs filename = Inr []"
    using that by (simp add: sync_file_def read_content_def index_content_Nil)
  show "sync_file fs filename s = s"
    if "endswith filename (ascii ''.pdf'') \<and> pdf_reader fs filename = Inr pages \<and>
        (\<forall>p \<in> set pages. p = Inr [])"
    using that pdf_not_txt [of filename]
    by (simp add: sync_file_def read_content_def index_content_Nil extract_pages_no_text)
qed

theorem empty_content_no_chunks_witness:
  "collection_of (sync_file empty_text_fs (ascii ''a.txt'') stale_state) = collection_of stale_state \<and>
   sync_file empty_text_fs (ascii ''c.txt'') stale_state = stale_state \<and>
   sync_file empty_text_fs (ascii ''b.pdf'') stale_state = stale_state"
proof -
  have ta: "endswith (ascii ''a.txt'') (ascii ''.txt'')" "endswith (ascii ''c.txt'') (ascii ''.txt'')"
    and pdf: "endswith (ascii ''b.pdf'') (ascii ''.pdf'')"
    by (simp_all add: endswith_def ascii_def)
  have a: "read_text empty_text_fs (ascii ''a.txt'') = Inl (Exc (ascii ''denied''))"
    by (simp add: empty_text_fs_def)
  have c: "read_text empty_text_fs (ascii ''c.txt'') = Inr []"
    by (simp add: empty_text_fs_def ascii_def)
  have b: "pdf_reader empty_text_fs (ascii ''b.pdf'') = Inr [Inr [], Inr []]"
    by (simp add: empty_text_fs_def)
  have p: "\<forall>p \<in> set [Inr [], Inr [] :: exc + pystr]. p = Inr []" by simp
  have r: "fst (read_content empty_text_fs (ascii ''a.txt'')) = []"
    by (simp add: read_content_def ta a)
  note t = empty_content_no_chunks [where fs = empty_text_fs and s = stale_state]
  show ?thesis
    using t [where filename = "ascii ''a.txt''" and e = "Exc (ascii ''denied'')"]
      t [where filename = "ascii ''c.txt''"]
      t [where filename = "ascii ''b.pdf''" and pages = "[Inr [], Inr []]"] ta pdf a b c p r
    by simp
qed


section \<open>Files whose read or extraction raises\<close>

text \<open>
  C2 (as the code has it). The synchronization always returns its status string and
  goes through every listed file, whatever a file does. A file whose read or extraction
  raises gets its error reported. A text file that cannot be read, and a PDF that cannot
  be opened, leave the collection as it was. A PDF one of whose pages raises keeps the
  text of the pages before that page: the chunks of that text are upserted, and nothing
  is when those pages gave no text.
\<close>

theorem sync_error_recovery:
  "fst (load_files_to_db fs s) = sync_done \<and>
   (listdir fs = before @ filename # rest \<longrightarrow>
      snd (load_files_to_db fs s) =
        fold (sync_file fs) rest (sync_file fs filename (fold (sync_file fs) before s))) \<and>
   (endswith filename (ascii ''.txt'') \<and> read_text fs filename = Inl e \<longrightarrow>
      sync_file fs filename s =
        s\<lparr>sidebar_errors := sidebar_errors s @ [filename @ txt_failed @ message e]\<rparr>) \<and>
   (endswith filename (ascii ''.pdf'') \<and> pdf_reader fs filename = Inl e \<longrightarrow>
      sync_file fs filename s =
        s\<lparr>sidebar_errors := sidebar_errors s @ [filename @ pdf_failed @ message e]\<rparr>) \<and>
   (endswith filename (ascii ''.pdf'') \<and>
    pdf_reader fs filename = Inr (map Inr texts @ Inl e # pages) \<longrightarrow>
      sync_file fs filename s =
        \<lparr>collection_of =
           index_content filename (concat (map (\<lambda>t. t @ [10]) (filter (\<lambda>t. t \<noteq> []) texts)))
             (collection_of s),
         sidebar_errors = sidebar_errors s @ [filename @ pdf_failed @ message e]\<rparr>) \<and>
   (endswith filename (ascii ''.pdf'') \<and>
    pdf_reader fs filename = Inr (map Inr texts @ Inl e # pages) \<and> (\<forall>t \<in> set texts. t = []) \<longrightarrow>
      sync_file fs filename s =
        s\<lparr>sidebar_errors := sidebar_errors s @ [filename @ pdf_failed @ message e]\<rparr>)"
proof (intro conjI impI)
  show "fst (load_files_to_db fs s) = sync_done"
    by (simp add: load_files_to_db_def)
  show "snd (load_files_to_db fs s) =
        fold (sync_file fs) rest (sync_file fs filename (fold (sync_file fs) before s))"
    if "listdir fs = before @ filename # rest"
    using that by (simp add: load_files_to_db_def)
  show "sync_file fs filename s =
        s\<lparr>sidebar_errors := sidebar_errors s @ [filename @ txt_failed @ message e]\<rparr>"
    if "endswith filename (ascii ''.txt'') \<and> read_text fs filename = Inl e"
    using that by (simp add: sync_file_def read_content_def index_content_Nil)
  show "sync_file fs filename s =
        s\<lparr>sidebar_errors := sidebar_errors s @ [filename @ pdf_failed @ message e]\<rparr>"
    if "endswith filename (ascii ''.pdf'') \<and> pdf_reader fs filename = Inl e"
    using that pdf_not_txt [of filename]
    by (simp add: sync_file_def read_content_def index_content_Nil)
  show "sync_file fs filename s =
        \<lparr>collection_of =
           index_content filename (concat (map (\<lambda>t. t @ [10]) (filter (\<lambda>t. t \<noteq> []) texts)))
             (collection_of s),
         sidebar_errors = sidebar_errors s @ [filename @ pdf_failed @ message e]\<rparr>"
    if "endswith filename (ascii ''.pdf'') \<and>
        pdf_reader fs filename = Inr (map Inr texts @ Inl e # pages)"
    using that pdf_not_txt [of filename]
    by (simp add: sync_file_def read_content_def extract_pages_raise)
  show "sync_file fs filename s =
        s\<lparr>sidebar_errors := sidebar_errors s @ [filename @ pdf_failed @ message e]\<rparr>"
    if h: "endswith filename (ascii ''.pdf'') \<and>
        pdf_reader fs filename = Inr (map Inr texts @ Inl e # pages) \<and> (\<forall>t \<in> set texts. t = [])"
  proof -
    from h have "filter (\<lambda>t. t \<noteq> []) texts = []" by (simp add: filter_empty_conv)
    then show ?thesis
      using h pdf_not_txt [of filename]
      by (simp add: sync_file_def read_content_def extract_pages_raise index_content_Nil)
  qed
qed

lemma short_offsets: "content \<noteq> [] \<Longrightarrow> length content \<le> 650 \<Longrightarrow> chunk_offsets content = [0]"
proof -
  assume "content \<noteq> []" and "length content \<le> 650"
  then have "(length content + 649) div 650 = 1"
    by (cases content) simp_all
  then show ?thesis by (simp add: chunk_offsets_map)
qed

lemma short_index_content:
  assumes "content \<noteq> []" "length content \<le> 650"
  shows "index_content filename content c =
         c(chunk_id filename 0 \<mapsto> \<lparr>document = content, meta = \<lparr>source = filename\<rparr>\<rparr>)"
  using assms
  by (simp add: index_content_def short_offsets upsert_def chunk_at_def slice_def chunk_size_def)

theorem sync_error_recovery_witness:
  "fst (load_files_to_db failing_fs empty_state) = sync_done \<and>
   snd (load_files_to_db failing_fs empty_state) =
     fold (sync_file failing_fs) [ascii ''c.pdf'', ascii ''d.txt'', ascii ''e.pdf'']
       (sync_file failing_fs (ascii ''b.pdf'') (fold (sync_file failing_fs) [ascii ''a.txt''] empty_state)) \<and>
   sync_file failing_fs (ascii ''a.txt'') empty_state =
     empty_state\<lparr>sidebar_errors := [ascii ''a.txt'' @ txt_failed @ ascii ''denied'']\<rparr> \<and>
   sync_file failing_fs (ascii ''b.pdf'') empty_state =
     empty_state\<lparr>sidebar_errors := [ascii ''b.pdf'' @ pdf_failed @ ascii ''broken'']\<rparr> \<and>
   sync_file failing_fs (ascii ''c.pdf'') empty_state =
     \<lparr>collection_of = index_content (ascii ''c.pdf'') (ascii ''hello'' @ [10]) Map.empty,
      sidebar_errors = [ascii ''c.pdf'' @ pdf_failed @ ascii ''boom'']\<rparr> \<and>
   sync_file failing_fs (ascii ''e.pdf'') empty_state =
     empty_state\<lparr>sidebar_errors := [ascii ''e.pdf'' @ pdf_failed @ ascii ''bad'']\<rparr>"
proof -
  have l: "listdir failing_fs = [ascii ''a.txt''] @ ascii ''b.pdf'' # [ascii ''c.pdf'', ascii ''d.txt'', ascii ''e.pdf'']"
    by (simp add: failing_fs_def)
  have ta: "endswith (ascii ''a.txt'') (ascii ''.txt'')"
    and pb: "endswith (ascii ''b.pdf'') (ascii ''.pdf'')"
    and pc: "endswith (ascii ''c.pdf'') (ascii ''.pdf'')"
    and pe: "endswith (ascii ''e.pdf'') (ascii ''.pdf'')"
    by (simp_all add: endswith_def ascii_def)
  have a: "read_text failing_fs (ascii ''a.txt'') = Inl (Exc (ascii ''denied''))"
    by (simp add: failing_fs_def)
  have b: "pdf_reader failing_fs (ascii ''b.pdf'') = Inl (Exc (ascii ''broken''))"
    by (simp add: failing_fs_def)
  have c: "pdf_reader failing_fs (ascii ''c.pdf'') =
      Inr (map Inr [ascii ''hello''] @ Inl (Exc (ascii ''boom'')) # [Inr (ascii ''more'')])"
    by (simp add: failing_fs_def ascii_def)
  have e: "pdf_reader failing_fs (ascii ''e.pdf'') =
      Inr (map Inr [[]] @ Inl (Exc (ascii ''bad'')) # [])"
    by (simp add: failing_fs_def ascii_def)
  have ne: "ascii ''hello'' \<noteq> []" by (simp add: ascii_def)
  note t = sync_error_recovery [where fs = failing_fs and s = empty_state]
  have r1: "fst (load_files_to_db failing_fs empty_state) = sync_done"
    using t by (rule conjunct1)
  have r2: "snd (load_files_to_db failing_fs empty_state) =
     fold (sync_file failing_fs) [ascii ''c.pdf'', ascii ''d.txt'', ascii ''e.pdf'']
       (sync_file failing_fs (ascii ''b.pdf'') (fold (sync_file failing_fs) [ascii ''a.txt''] empty_state))"
    using t [where before = "[ascii ''a.txt'']" and filename = "ascii ''b.pdf''"
        and rest = "[ascii ''c.pdf'', ascii ''d.txt'', ascii ''e.pdf'']"] l by blast
  have r3: "sync_file failing_fs (ascii ''a.txt'') empty_state =
     empty_state\<lparr>sidebar_errors := [ascii ''a.txt'' @ txt_failed @ ascii ''denied'']\<rparr>"
    using t [where filename = "ascii ''a.txt''" and e = "Exc (ascii ''denied'')"] ta a
    by (simp add: empty_state_def)
  have r4: "sync_file failing_fs (ascii ''b.pdf'') empty_state =
     empty_state\<lparr>sidebar_errors := [ascii ''b.pdf'' @ pdf_failed @ ascii ''broken'']\<rparr>"
    using t [where filename = "ascii ''b.pdf''" and e = "Exc (ascii ''broken'')"] pb b
    by (simp add: empty_state_def)
  have r5: "sync_file failing_fs (ascii ''c.pdf'') empty_state =
     \<lparr>collection_of = index_content (ascii ''c.pdf'') (ascii ''hello'' @ [10]) Map.empty,
      sidebar_errors = [ascii ''c.pdf'' @ pdf_failed @ ascii ''boom'']\<rparr>"
    using t [where filename = "ascii ''c.pdf''" and e = "Exc (ascii ''boom'')"
        and texts = "[ascii ''hello'']" and pages = "[Inr (ascii ''more'')]"] pc c ne
    by (simp add: empty_state_def)
  have r6: "sync_file failing_fs (ascii ''e.pdf'') empty_state =
     empty_state\<lparr>sidebar_errors := [ascii ''e.pdf'' @ pdf_failed @ ascii ''bad'']\<rparr>"
    using t [where filename = "ascii ''e.pdf''" and e = "Exc (ascii ''bad'')"
        and texts = "[[]]" and pages = "[]", THEN conjunct2, THEN conjunct2, THEN conjunct2,
        THEN conjunct2, THEN conjunct2] pe e
    by (simp add: empty_state_def)
  show ?thesis using r1 r2 r3 r4 r5 r6 by blast
qed

text \<open>The claim as the specification states it fails for a PDF whose second page raises:
  the error is reported, and yet the file has an entry in the collection, the text of
  its first page.\<close>

theorem sync_error_recovery_counterexample:
  "sidebar_errors (snd (load_files_to_db partial_pdf_fs empty_state)) =
     [ascii ''a.pdf'' @ pdf_failed @ ascii ''boom''] \<and>
   collection_of (snd (load_files_to_db partial_pdf_fs empty_state)) (chunk_id (ascii ''a.pdf'') 0) =
     Some \<lparr>document = ascii ''hello'' @ [10], meta = \<lparr>source = ascii ''a.pdf''\<rparr>\<rparr> \<and>
   collection_of (snd (load_files_to_db partial_pdf_fs empty_state)) \<noteq>
     collection_of empty_state"
proof -
  have p: "endswith (ascii ''a.pdf'') (ascii ''.pdf'')" "\<not> endswith (ascii ''a.pdf'') (ascii ''.txt'')"
    by (simp_all add: endswith_def ascii_def)
  have r: "read_content partial_pdf_fs (ascii ''a.pdf'') =
      (ascii ''hello'' @ [10], [ascii ''a.pdf'' @ pdf_failed @ ascii ''boom''])"
    by (simp add: read_content_def p) (simp add: partial_pdf_fs_def ascii_def)
  have i: "index_content (ascii ''a.pdf'') (ascii ''hello'' @ [10]) Map.empty =
      [chunk_id (ascii ''a.pdf'') 0 \<mapsto>
        \<lparr>document = ascii ''hello'' @ [10], meta = \<lparr>source = ascii ''a.pdf''\<rparr>\<rparr>]"
    by (rule short_index_content) (simp_all add: ascii_def)
  have l: "listdir partial_pdf_fs = [ascii ''a.pdf'']" by (simp add: partial_pdf_fs_def)
  have s: "snd (load_files_to_db partial_pdf_fs empty_state) =
      \<lparr>collection_of = [chunk_id (ascii ''a.pdf'') 0 \<mapsto>
          \<lparr>document = ascii ''hello'' @ [10], meta = \<lparr>source = ascii ''a.pdf''\<rparr>\<rparr>],
        sidebar_errors = [ascii ''a.pdf'' @ pdf_failed @ ascii ''boom'']\<rparr>"
    by (simp add: load_files_to_db_def l sync_file_def r) (simp add: empty_state_def i)
  have "[chunk_id (ascii ''a.pdf'') 0 \<mapsto>
          \<lparr>document = ascii ''hello'' @ [10], meta = \<lparr>source = ascii ''a.pdf''\<rparr>\<rparr>] \<noteq> Map.empty"
    by simp
  then show ?thesis unfolding s by (simp add: empty_state_def)
qed

section \<open>Context assembly\<close>

lemma set_iteration_remdups: "set_iteration remdups"
  by (simp add: set_iteration_def)

text \<open>
  C7. The handler makes one block \<open>[source]: text\<close> per pair of the result, in order,
  and joins the blocks with an empty line between them; the sources it returns are the
  source names of the result, each once, in the order the set gives them. For the
  sources \<open>a.txt\<close>, \<open>a.txt\<close>, \<open>b.pdf\<close> these are two names, \<open>a.txt\<close> and \<open>b.pdf\<close>.
\<close>

theorem build_context:
  "length (formatted_contexts contexts ms) = min (length contexts) (length ms) \<and>
   (\<forall>k < min (length contexts) (length ms).
      formatted_contexts contexts ms ! k =
        ascii ''['' @ source (ms ! k) @ ascii '']: '' @ contexts ! k) \<and>
   context_text [] [] = [] \<and>
   context_text [d] [m] = ascii ''['' @ source m @ ascii '']: '' @ d \<and>
   context_text (d # d' # ds) (m # m' # ms') =
     (ascii ''['' @ source m @ ascii '']: '' @ d) @ [10, 10] @ context_text (d' # ds) (m' # ms') \<and>
   (set_iteration order \<longrightarrow>
      distinct (sources order ms) \<and> set (sources order ms) = source ` set ms \<and>
      length (sources order ms) = card (source ` set ms)) \<and>
   (set_iteration order \<and> map source ms = [ascii ''a.txt'', ascii ''a.txt'', ascii ''b.pdf''] \<longrightarrow>
      length (sources order ms) = 2 \<and>
      set (sources order ms) = {ascii ''a.txt'', ascii ''b.pdf''})"
proof -
  have dist: "distinct (sources order ms) \<and> set (sources order ms) = source ` set ms \<and>
      length (sources order ms) = card (source ` set ms)" if "set_iteration order"
  proof -
    from that have d: "distinct (sources order ms)"
      and s: "set (sources order ms) = set (map source ms)"
      by (simp_all add: set_iteration_def sources_def)
    from distinct_card [OF d] s show ?thesis using d by simp
  qed
  have ex: "length (sources order ms) = 2 \<and>
      set (sources order ms) = {ascii ''a.txt'', ascii ''b.pdf''}"
    if h: "set_iteration order \<and> map source ms = [ascii ''a.txt'', ascii ''a.txt'', ascii ''b.pdf'']"
  proof -
    from h have "set (map source ms) = {ascii ''a.txt'', ascii ''b.pdf''}" by simp
    then have s: "source ` set ms = {ascii ''a.txt'', ascii ''b.pdf''}" by simp
    have "card {ascii ''a.txt'', ascii ''b.pdf''} = 2" by (simp add: ascii_def)
    with dist h s show ?thesis by simp
  qed
  have nth: "\<forall>k < min (length contexts) (length ms).
      formatted_contexts contexts ms ! k =
        ascii ''['' @ source (ms ! k) @ ascii '']: '' @ contexts ! k"
    by (simp add: formatted_contexts_def)
  have len: "length (formatted_contexts contexts ms) = min (length contexts) (length ms)"
    by (simp add: formatted_contexts_def)
  have c0: "context_text [] [] = []"
    and c1: "context_text [d] [m] = ascii ''['' @ source m @ ascii '']: '' @ d"
    and c2: "context_text (d # d' # ds) (m # m' # ms') =
     (ascii ''['' @ source m @ ascii '']: '' @ d) @ [10, 10] @ context_text (d' # ds) (m' # ms')"
    by (simp_all add: context_text_def formatted_contexts_def)
  show ?thesis
    using len nth c0 c1 c2 dist ex by blast
qed

theorem build_context_witness:
  "context_text [ascii ''x'', ascii ''y'', ascii ''z'']
     [\<lparr>source = ascii ''a.txt''\<rparr>, \<lparr>source = ascii ''a.txt''\<rparr>, \<lparr>source = ascii ''b.pdf''\<rparr>] =
     ascii ''[a.txt]: x'' @ [10, 10] @ ascii ''[a.txt]: y'' @ [10, 10] @ ascii ''[b.pdf]: z'' \<and>
   formatted_contexts [ascii ''x'', ascii ''y'', ascii ''z'']
     [\<lparr>source = ascii ''a.txt''\<rparr>, \<lparr>source = ascii ''a.txt''\<rparr>, \<lparr>source = ascii ''b.pdf''\<rparr>] ! 2 =
     ascii ''[b.pdf]: z'' \<and>
   length (sources remdups
     [\<lparr>source = ascii ''a.txt''\<rparr>, \<lparr>source = ascii ''a.txt''\<rparr>, \<lparr>source = ascii ''b.pdf''\<rparr>]) = 2 \<and>
   set (sources remdups
     [\<lparr>source = ascii ''a.txt''\<rparr>, \<lparr>source = ascii ''a.txt''\<rparr>, \<lparr>source = ascii ''b.pdf''\<rparr>]) =
     {ascii ''a.txt'', ascii ''b.pdf''} \<and>
   distinct (sources remdups
     [\<lparr>source = ascii ''a.txt''\<rparr>, \<lparr>source = ascii ''a.txt''\<rparr>, \<lparr>source = ascii ''b.pdf''\<rparr>])"
proof -
  let ?a = "\<lparr>source = ascii ''a.txt''\<rparr>" and ?b = "\<lparr>source = ascii ''b.pdf''\<rparr>"
  let ?x = "ascii ''x''" and ?y = "ascii ''y''" and ?z = "ascii ''z''"
  note t = build_context [where order = remdups]
  have c1: "context_text [?z] [?b] = ascii ''['' @ source ?b @ ascii '']: '' @ ?z"
    using t [where d = ?z and m = ?b] by blast
  have c2: "context_text [?y, ?z] [?a, ?b] =
      (ascii ''['' @ source ?a @ ascii '']: '' @ ?y) @ [10, 10] @ context_text [?z] [?b]"
    using t [where d = ?y and m = ?a and d' = ?z and m' = ?b and ds = "[]" and ms' = "[]"]
    by blast
  have c3: "context_text [?x, ?y, ?z] [?a, ?a, ?b] =
      (ascii ''['' @ source ?a @ ascii '']: '' @ ?x) @ [10, 10] @ context_text [?y, ?z] [?a, ?b]"
    using t [where d = ?x and m = ?a and d' = ?y and m' = ?a and ds = "[?z]" and ms' = "[?b]"]
    by blast
  have r1: "context_text [?x, ?y, ?z] [?a, ?a, ?b] =
     ascii ''[a.txt]: x'' @ [10, 10] @ ascii ''[a.txt]: y'' @ [10, 10] @ ascii ''[b.pdf]: z''"
    unfolding c3 c2 c1 by (simp add: ascii_def)
  have "formatted_contexts [?x, ?y, ?z] [?a, ?a, ?b] ! 2 =
      ascii ''['' @ source ([?a, ?a, ?b] ! 2) @ ascii '']: '' @ [?x, ?y, ?z] ! 2"
    using t [where contexts = "[?x, ?y, ?z]" and ms = "[?a, ?a, ?b]", THEN conjunct2,
        THEN conjunct1, rule_format, of 2] by simp
  then have r2: "formatted_contexts [?x, ?y, ?z] [?a, ?a, ?b] ! 2 = ascii ''[b.pdf]: z''"
    by (simp add: ascii_def)
  have r3: "length (sources remdups [?a, ?a, ?b]) = 2 \<and>
      set (sources remdups [?a, ?a, ?b]) = {ascii ''a.txt'', ascii ''b.pdf''}"
    using t [where ms = "[?a, ?a, ?b]", THEN conjunct2, THEN conjunct2, THEN conjunct2,
        THEN conjunct2, THEN conjunct2, THEN conjunct2] set_iteration_remdups by simp
  have r4: "distinct (sources remdups [?a, ?a, ?b])"
    using t [where ms = "[?a, ?a, ?b]", THEN conjunct2, THEN conjunct2, THEN conjunct2,
        THEN conjunct2, THEN conjunct2, THEN conjunct1] set_iteration_remdups by simp
  show ?thesis using r1 r2 r3 r4 by blast
qed

section \<open>The prompt\<close>

lemma prompt_l115_decline: "prompt_l115 = [51, 46, 32] @ decline_instruction"
  by (simp add: prompt_l115_def decline_instruction_def)

lemma prompt_split:
  "prompt ctx query =
     ([10] @ indent @ prompt_l106 @ [10] @ indent @ prompt_l107 @ [10] @ indent @ prompt_l108 @
      [10] @ indent @ prompt_l109 @ [10] @ indent @ prompt_l110 @ [10, 10] @
      indent @ prompt_l112 @ [10] @ indent @ prompt_l113 @ [10] @ indent @ prompt_l114 @ [10] @
      indent @ [51, 46, 32]) @
     decline_instruction @
     ([10, 10] @ indent @ prompt_l117 @ [10] @ indent @ ctx @ [10, 10] @ indent @
      prompt_question @ query @ [10, 10] @ indent @ prompt_l122 @ [10] @ indent)"
  by (simp add: prompt_def prompt_lines_def prompt_l115_decline)

lemma decline_reply_split:
  "decline_instruction =
     take 26 decline_instruction @ decline_reply @ drop 53 decline_instruction"
  by (simp add: decline_instruction_def decline_reply_def)

text \<open>
  C8. When the index search returns no results, the context text is empty and so is
  the list of sources; the handler still sends one request to the completion service,
  with the prompt built from the empty context and the query. The prompt, whatever the
  context and the query, contains the instruction to decline, which contains the reply
  asked for.
\<close>

theorem empty_retrieval:
  "context_text [] [] = [] \<and>
   (set_iteration order \<longrightarrow> sources order [] = []) \<and>
   (query_index query 3 = Inr \<lparr>result_documents = [], result_metadatas = []\<rparr> \<longrightarrow>
      requests (chat_turn order query_index completion query) =
        [\<lparr>user_content = prompt [] query, model = ascii ''llama-3.3-70b-versatile''\<rparr>]) \<and>
   sublist decline_instruction (prompt ctx query) \<and>
   sublist decline_reply decline_instruction"
proof (intro conjI impI)
  show "context_text [] [] = []"
    by (simp add: context_text_def formatted_contexts_def)
  show "sources order [] = []" if "set_iteration order"
  proof -
    from that have "set (order []) = set []" unfolding set_iteration_def by blast
    then show ?thesis by (simp add: sources_def)
  qed
  show "requests (chat_turn order query_index completion query) =
        [\<lparr>user_content = prompt [] query, model = ascii ''llama-3.3-70b-versatile''\<rparr>]"
    if "query_index query 3 = Inr \<lparr>result_documents = [], result_metadatas = []\<rparr>"
    using that
    by (simp add: chat_turn_def Let_def context_text_def formatted_contexts_def split: sum.split)
  show "sublist decline_instruction (prompt ctx query)"
    unfolding prompt_split by (rule sublist_appendI)
  show "sublist decline_reply decline_instruction"
    by (subst decline_reply_split) (rule sublist_appendI)
qed

theorem empty_retrieval_witness:
  "sources remdups [] = [] \<and>
   requests (chat_turn remdups no_results answers_ok (ascii ''test'')) =
     [\<lparr>user_content = prompt [] (ascii ''test''), model = ascii ''llama-3.3-70b-versatile''\<rparr>]"
proof -
  have q: "no_results (ascii ''test'') 3 = Inr \<lparr>result_documents = [], result_metadatas = []\<rparr>"
    by (simp add: no_results_def)
  show ?thesis
    using empty_retrieval [where order = remdups and query_index = no_results
        and query = "ascii ''test''" and completion = answers_ok] q set_iteration_remdups
    by blast
qed

end
